theory Spec2Isabelle
  imports Complex_Main
begin

section \<open>The numerical-methods module \<open>numan.py\<close>\<close>

text \<open>
  The module holds eight stateless routines: two root finders (\<open>fp\<close>, \<open>nr\<close>) that
  return a trace table, five quadrature rules (\<open>lr\<close>, \<open>rr\<close>, \<open>mr\<close>, \<open>t\<close>, \<open>s\<close>) and
  a forward Euler stepper (\<open>e\<close>).

  Numbers are modelled in exact arithmetic: a Python number is a \<open>real\<close>, an iteration or
  subinterval count is an \<open>int\<close>. A user-supplied callable is a total function
  \<open>real \<Rightarrow> real\<close> (pure, never raising). Everything that the routines themselves can
  raise is a value: true division by zero and an index out of range are results
  \<open>Inl err\<close>. A \<open>while\<close> loop that may run forever returns \<open>None\<close> when it does.
\<close>

subsection \<open>Python primitives\<close>

datatype py_error = ZeroDivisionError | IndexError

text \<open>True division \<open>x / y\<close>: raises on a zero divisor.\<close>

definition py_div :: "real \<Rightarrow> real \<Rightarrow> py_error + real" where
  "py_div x y = (if y = 0 then Inl ZeroDivisionError else Inr (x / y))"

text \<open>List subscription \<open>xs[i]\<close>: a negative index counts from the end.\<close>

definition py_index :: "'a list \<Rightarrow> int \<Rightarrow> py_error + 'a" where
  "py_index xs i =
     (let len = int (length xs); j = (if i < 0 then len + i else i)
      in if 0 \<le> j \<and> j < len then Inr (xs ! nat j) else Inl IndexError)"

text \<open>\<open>range(lo, hi)\<close> on integers: \<open>lo, lo+1, ..., hi-1\<close>, empty when \<open>hi \<le> lo\<close>.\<close>

definition range_py :: "int \<Rightarrow> int \<Rightarrow> int list" where
  "range_py lo hi = [lo..hi - 1]"

text \<open>
  \<open>for i in idxs: body\<close> where the body updates the loop's variables and may raise:
  the first error ends the loop.
\<close>

fun for_loop :: "int list \<Rightarrow> (int \<Rightarrow> 'st \<Rightarrow> py_error + 'st) \<Rightarrow> 'st \<Rightarrow> py_error + 'st" where
  "for_loop [] body st = Inr st"
| "for_loop (i # idxs) body st =
     (case body i st of Inl err \<Rightarrow> Inl err | Inr st' \<Rightarrow> for_loop idxs body st')"

subsection \<open>Root finders\<close>

text \<open>
  Both root finders return \<open>spec_tab\<close>, a list of rows; a row is a three-element list
  holding strings (the header), an integer step index and numbers.
\<close>

datatype cell = CStr string | CInt int | CNum real

type_synonym row = "cell list"

definition trace_header :: row where
  "trace_header = [CStr ''n'', CStr ''xn'', CStr ''|f(xn)|'']"

text \<open>The local variables of \<open>fp\<close> and \<open>nr\<close>.\<close>

record iter_state =
  tab :: "real list list"
  sol :: real
  count :: int
  spec_tab :: "row list"

text \<open>
  Fixed-point iteration. The body of the \<open>while\<close> loop (\<open>n == 0\<close>):
  \<^verbatim>\<open>tab.append([sol, m(sol)]); sol = m(sol); count += 1;
  spec_tab.append([count, sol, abs(m(sol))])\<close>
\<close>

definition fp_while_body :: "(real \<Rightarrow> real) \<Rightarrow> iter_state \<Rightarrow> iter_state" where
  "fp_while_body m st =
     (let st1 = st\<lparr>tab := tab st @ [[sol st, m (sol st)]]\<rparr>;
          st2 = st1\<lparr>sol := m (sol st1)\<rparr>;
          st3 = st2\<lparr>count := count st2 + 1\<rparr>
      in st3\<lparr>spec_tab := spec_tab st3 @
               [[CInt (count st3), CNum (sol st3), CNum \<bar>m (sol st3)\<bar>]]\<rparr>)"

text \<open>
  The body of the \<open>for k in range(0, n)\<close> loop:
  \<^verbatim>\<open>tab.append([sol, m(sol)]); sol = m(sol);
  spec_tab.append([count, sol, abs(m(sol))])\<close>
\<close>

definition fp_for_body :: "(real \<Rightarrow> real) \<Rightarrow> int \<Rightarrow> iter_state \<Rightarrow> iter_state" where
  "fp_for_body m k st =
     (let st1 = st\<lparr>tab := tab st @ [[sol st, m (sol st)]]\<rparr>;
          st2 = st1\<lparr>sol := m (sol st1)\<rparr>
      in st2\<lparr>spec_tab := spec_tab st2 @
               [[CInt (count st2), CNum (sol st2), CNum \<bar>m (sol st2)\<bar>]]\<rparr>)"

text \<open>\<open>while abs(m(sol)-sol) >= lim: body\<close>; \<open>None\<close> when the loop never ends.\<close>

partial_function (option) fp_while ::
  "(real \<Rightarrow> real) \<Rightarrow> real \<Rightarrow> iter_state \<Rightarrow> iter_state option" where
  "fp_while m lim' st =
     (if \<bar>m (sol st) - sol st\<bar> \<ge> lim' then fp_while m lim' (fp_while_body m st)
      else Some st)"

definition fp :: "(real \<Rightarrow> real) \<Rightarrow> real \<Rightarrow> int \<Rightarrow> real \<Rightarrow> row list option" where
  "fp m x0 n lim' =
     (let st0 = \<lparr>tab = [], sol = x0, count = 0,
                 spec_tab = [trace_header, [CInt 0, CNum x0, CNum \<bar>m x0 - x0\<bar>]]\<rparr>
      in if n = 0 then map_option spec_tab (fp_while m lim' st0)
         else Some (spec_tab (fold (fp_for_body m) (range_py 0 n) st0)))"

text \<open>
  Newton-Raphson. The body of the \<open>while\<close> loop (\<open>n == 0\<close>) divides twice:
  \<^verbatim>\<open>tab.append([sol, (sol - m(sol)/dm(sol))]); sol = sol - m(sol)/dm(sol);
  count += 1; spec_tab.append([count, sol, abs(m(sol))])\<close>
\<close>

definition nr_while_body ::
  "(real \<Rightarrow> real) \<Rightarrow> (real \<Rightarrow> real) \<Rightarrow> iter_state \<Rightarrow> py_error + iter_state" where
  "nr_while_body m dm st =
     (case py_div (m (sol st)) (dm (sol st)) of Inl err \<Rightarrow> Inl err | Inr q \<Rightarrow>
        (let st1 = st\<lparr>tab := tab st @ [[sol st, sol st - q]]\<rparr>
         in (case py_div (m (sol st1)) (dm (sol st1)) of Inl err \<Rightarrow> Inl err | Inr q' \<Rightarrow>
              (let st2 = st1\<lparr>sol := sol st1 - q'\<rparr>;
                   st3 = st2\<lparr>count := count st2 + 1\<rparr>
               in Inr (st3\<lparr>spec_tab := spec_tab st3 @
                          [[CInt (count st3), CNum (sol st3), CNum \<bar>m (sol st3)\<bar>]]\<rparr>)))))"

text \<open>
  The body of the \<open>for k in range(1, n+1)\<close> loop:
  \<^verbatim>\<open>tab.append([sol, (sol - m(sol)/dm(sol))]); sol = sol - m(sol) / dm(sol);
  spec_tab.append([k, sol, abs(m(sol))])\<close>
\<close>

definition nr_for_body ::
  "(real \<Rightarrow> real) \<Rightarrow> (real \<Rightarrow> real) \<Rightarrow> int \<Rightarrow> iter_state \<Rightarrow> py_error + iter_state" where
  "nr_for_body m dm k st =
     (case py_div (m (sol st)) (dm (sol st)) of Inl err \<Rightarrow> Inl err | Inr q \<Rightarrow>
        (let st1 = st\<lparr>tab := tab st @ [[sol st, sol st - q]]\<rparr>
         in (case py_div (m (sol st1)) (dm (sol st1)) of Inl err \<Rightarrow> Inl err | Inr q' \<Rightarrow>
              (let st2 = st1\<lparr>sol := sol st1 - q'\<rparr>
               in Inr (st2\<lparr>spec_tab := spec_tab st2 @
                          [[CInt k, CNum (sol st2), CNum \<bar>m (sol st2)\<bar>]]\<rparr>)))))"

text \<open>
  \<open>while abs(m(sol)) >= lim: body\<close>; \<open>None\<close> when the loop never ends,
  \<open>Some (Inl err)\<close> when the body raises.
\<close>

partial_function (option) nr_while ::
  "(real \<Rightarrow> real) \<Rightarrow> (real \<Rightarrow> real) \<Rightarrow> real \<Rightarrow> iter_state \<Rightarrow> (py_error + iter_state) option"
  where
  "nr_while m dm lim' st =
     (if \<bar>m (sol st)\<bar> \<ge> lim' then
        (case nr_while_body m dm st of Inl err \<Rightarrow> Some (Inl err)
         | Inr st' \<Rightarrow> nr_while m dm lim' st')
      else Some (Inr st))"

definition nr ::
  "(real \<Rightarrow> real) \<Rightarrow> (real \<Rightarrow> real) \<Rightarrow> real \<Rightarrow> int \<Rightarrow> real \<Rightarrow> (py_error + row list) option"
  where
  "nr m dm x0 n lim' =
     (let st0 = \<lparr>tab = [], sol = x0, count = 0,
                 spec_tab = [trace_header, [CInt 0, CNum x0, CNum \<bar>m x0\<bar>]]\<rparr>
      in if n = 0 then map_option (map_sum id spec_tab) (nr_while m dm lim' st0)
         else Some (map_sum id spec_tab (for_loop (range_py 1 (n + 1)) (nr_for_body m dm) st0)))"

subsection \<open>Quadrature rules\<close>

text \<open>
  Each rule first computes \<open>h = (b-a)/n\<close> (which raises for \<open>n = 0\<close>), then the sample
  points \<open>x = [a + i*h for i in range(0, n+1)]\<close> and the samples \<open>y = [m(k) for k in x]\<close>,
  and accumulates \<open>total\<close> from \<open>0\<close> in a \<open>for\<close> loop that subscripts \<open>y\<close>.
\<close>

definition sample_points :: "real \<Rightarrow> real \<Rightarrow> int \<Rightarrow> real list" where
  "sample_points a h n = map (\<lambda>i. a + of_int i * h) (range_py 0 (n + 1))"

definition lr :: "(real \<Rightarrow> real) \<Rightarrow> real \<Rightarrow> real \<Rightarrow> int \<Rightarrow> py_error + real" where
  "lr m a b n =
     (case py_div (b - a) (of_int n) of Inl err \<Rightarrow> Inl err | Inr h \<Rightarrow>
        let x = sample_points a h n;
            y = map m x
        in for_loop (range_py 0 n)
             (\<lambda>i total. case py_index y i of Inl err \<Rightarrow> Inl err
                        | Inr yi \<Rightarrow> Inr (total + yi * h)) 0)"

definition rr :: "(real \<Rightarrow> real) \<Rightarrow> real \<Rightarrow> real \<Rightarrow> int \<Rightarrow> py_error + real" where
  "rr m a b n =
     (case py_div (b - a) (of_int n) of Inl err \<Rightarrow> Inl err | Inr h \<Rightarrow>
        let x = sample_points a h n;
            y = map m x
        in for_loop (range_py 1 (n + 1))
             (\<lambda>i total. case py_index y i of Inl err \<Rightarrow> Inl err
                        | Inr yi \<Rightarrow> Inr (total + yi * h)) 0)"

text \<open>
  The midpoint rule builds \<open>x_mid = [(x[i] + x[i+1])/2 for i in range(0, len(x) - 1)]\<close>
  by a comprehension that subscripts \<open>x\<close> twice.
\<close>

definition midpoints :: "real list \<Rightarrow> py_error + real list" where
  "midpoints x =
     for_loop (range_py 0 (int (length x) - 1))
       (\<lambda>i acc. (case py_index x i of Inl err \<Rightarrow> Inl err
          | Inr xi \<Rightarrow> (case py_index x (i + 1) of Inl err \<Rightarrow> Inl err
          | Inr xi1 \<Rightarrow> Inr (acc @ [(xi + xi1) / 2])))) []"

definition mr :: "(real \<Rightarrow> real) \<Rightarrow> real \<Rightarrow> real \<Rightarrow> int \<Rightarrow> py_error + real" where
  "mr m a b n =
     (case py_div (b - a) (of_int n) of Inl err \<Rightarrow> Inl err | Inr h \<Rightarrow>
        let x = sample_points a h n
        in (case midpoints x of Inl err \<Rightarrow> Inl err
            | Inr x_mid \<Rightarrow>
                (let y_mid = map m x_mid
                 in for_loop (range_py 0 n)
                      (\<lambda>i total. (case py_index y_mid i of Inl err \<Rightarrow> Inl err
                                 | Inr yi \<Rightarrow> Inr (total + yi * h))) 0)))"

definition t :: "(real \<Rightarrow> real) \<Rightarrow> real \<Rightarrow> real \<Rightarrow> int \<Rightarrow> py_error + real" where
  "t m a b n =
     (case py_div (b - a) (of_int n) of Inl err \<Rightarrow> Inl err | Inr h \<Rightarrow>
        let x = sample_points a h n;
            y = map m x
        in for_loop (range_py 1 (n + 1))
             (\<lambda>i total. case py_index y i of Inl err \<Rightarrow> Inl err
                | Inr yi \<Rightarrow> (case py_index y (i - 1) of Inl err \<Rightarrow> Inl err
                | Inr yi1 \<Rightarrow> Inr (total + h * (1 / 2) * (yi + yi1)))) 0)"

text \<open>
  Simpson's rule returns a number, or for an odd \<open>n\<close> the string
  \<open>"Error: n must be an even number for Simpson's rule"\<close> as an ordinary return value.
  The division, the sample points and the samples are computed before \<open>n\<close> is tested.
\<close>

datatype s_result = Num real | Msg string

definition s_error_message :: string where
  "s_error_message =
     ''Error: n must be an even number for Simpson'' @ [CHR 0x27] @ ''s rule''"

definition s :: "(real \<Rightarrow> real) \<Rightarrow> real \<Rightarrow> real \<Rightarrow> int \<Rightarrow> py_error + s_result" where
  "s m a b n =
     (case py_div (b - a) (of_int n) of Inl err \<Rightarrow> Inl err | Inr h \<Rightarrow>
        let x = sample_points a h n;
            y = map m x
        in if n mod 2 = 0 then
             let half = n div 2
             in case for_loop (range_py 1 (half + 1))
                  (\<lambda>i total. case py_index y (2 * i - 2) of Inl err \<Rightarrow> Inl err
                     | Inr y0 \<Rightarrow> (case py_index y (2 * i - 1) of Inl err \<Rightarrow> Inl err
                     | Inr y1 \<Rightarrow> (case py_index y (2 * i) of Inl err \<Rightarrow> Inl err
                     | Inr y2 \<Rightarrow> Inr (total + (h / 3) * (y0 + 4 * y1 + y2))))) 0
                of Inl err \<Rightarrow> Inl err | Inr result \<Rightarrow> Inr (Num result)
           else Inr (Msg s_error_message))"

subsection \<open>Forward Euler\<close>

text \<open>
  \<open>h = (b-a)/n\<close>, then \<open>for k in range(0, n): sol = sol + h * m(sol)\<close>; only \<open>sol\<close> is
  returned.
\<close>

definition e :: "(real \<Rightarrow> real) \<Rightarrow> real \<Rightarrow> real \<Rightarrow> real \<Rightarrow> int \<Rightarrow> py_error + real" where
  "e m a b x0 n =
     (case py_div (b - a) (of_int n) of Inl err \<Rightarrow> Inl err | Inr h \<Rightarrow>
        Inr (fold (\<lambda>k sol. sol + h * m sol) (range_py 0 n) x0))"

subsection \<open>The recurrence of the Euler stepper\<close>

text \<open>
  The sequence \<open>y\<^sub>0 = x0\<close>, \<open>y\<^sub>k\<^sub>+\<^sub>1 = y\<^sub>k + h * m(y\<^sub>k)\<close> as the specification writes it;
  \<open>e\<close> is compared with it below.
\<close>

primrec euler_seq :: "(real \<Rightarrow> real) \<Rightarrow> real \<Rightarrow> real \<Rightarrow> nat \<Rightarrow> real" where
  "euler_seq m h x0 0 = x0"
| "euler_seq m h x0 (Suc k) = euler_seq m h x0 k + h * m (euler_seq m h x0 k)"

subsection \<open>The Newton iterates\<close>

text \<open>
  The sequence \<open>x\<^sub>0 = x0\<close>, \<open>x\<^sub>k\<^sub>+\<^sub>1 = x\<^sub>k - m(x\<^sub>k)/dm(x\<^sub>k)\<close> as the specification writes
  it, and the trace row \<open>(k, x\<^sub>k, |m(x\<^sub>k)|)\<close> that belongs to the \<open>k\<close>-th iterate. The
  division is the total one of the reals; \<open>nr\<close> is compared with the sequence only up
  to the first iterate with a zero derivative.
\<close>

primrec newton_seq :: "(real \<Rightarrow> real) \<Rightarrow> (real \<Rightarrow> real) \<Rightarrow> real \<Rightarrow> nat \<Rightarrow> real" where
  "newton_seq m dm x0 0 = x0"
| "newton_seq m dm x0 (Suc k) =
     newton_seq m dm x0 k - m (newton_seq m dm x0 k) / dm (newton_seq m dm x0 k)"

definition newton_row :: "(real \<Rightarrow> real) \<Rightarrow> (real \<Rightarrow> real) \<Rightarrow> real \<Rightarrow> nat \<Rightarrow> row" where
  "newton_row m dm x0 k =
     [CInt (int k), CNum (newton_seq m dm x0 k), CNum \<bar>m (newton_seq m dm x0 k)\<bar>]"

text \<open>The local variables of \<open>nr\<close> when its loop is entered.\<close>

definition nr_init :: "(real \<Rightarrow> real) \<Rightarrow> real \<Rightarrow> iter_state" where
  "nr_init m x0 = \<lparr>tab = [], sol = x0, count = 0,
                   spec_tab = [trace_header, [CInt 0, CNum x0, CNum \<bar>m x0\<bar>]]\<rparr>"

subsection \<open>Inputs of the stated test cases\<close>

text \<open>
  The integrand \<open>f(x) = 1\<close>; the function \<open>x\<^sup>2 - 2\<close> and its derivative \<open>2x\<close>; the
  update \<open>(x + 2/x)/2\<close>, which the runs below evaluate at non-zero arguments only; and
  the update \<open>x/2 + 1\<close>, whose fixed point is \<open>2\<close>.
\<close>

definition unit_integrand :: "real \<Rightarrow> real" where
  "unit_integrand x = 1"

definition sq2_f :: "real \<Rightarrow> real" where
  "sq2_f x = x\<^sup>2 - 2"

definition sq2_df :: "real \<Rightarrow> real" where
  "sq2_df x = 2 * x"

definition babylonian :: "real \<Rightarrow> real" where
  "babylonian x = (x + 2 / x) / 2"

definition shifted_half :: "real \<Rightarrow> real" where
  "shifted_half x = x / 2 + 1"

section \<open>Properties\<close>

subsection \<open>Loops and subscripts\<close>

lemma for_loop_append:
  "for_loop (xs @ ys) body st =
     (case for_loop xs body st of Inl err \<Rightarrow> Inl err | Inr st' \<Rightarrow> for_loop ys body st')"
  by (induction xs arbitrary: st) (auto split: sum.splits)

lemma for_loop_sum:
  fixes g :: "int \<Rightarrow> real"
  assumes "\<And>i acc. i \<in> set idxs \<Longrightarrow> body i acc = Inr (acc + g i)"
  shows "for_loop idxs body acc0 = Inr (acc0 + sum_list (map g idxs))"
  using assms by (induction idxs arbitrary: acc0) (simp_all add: add.assoc)

lemma length_sample_points: "length (sample_points a h n) = nat (n + 1)"
  by (simp add: sample_points_def range_py_def)

lemma py_index_map_range:
  assumes "0 \<le> i" "i \<le> n"
  shows "py_index (map f (range_py 0 (n + 1))) i = Inr (f i)"
  using assms by (simp add: py_index_def range_py_def Let_def)

lemma py_index_samples:
  assumes "0 \<le> i" "i \<le> n"
  shows "py_index (map m (sample_points a h n)) i = Inr (m (a + of_int i * h))"
  using assms py_index_map_range[of i n "\<lambda>i. m (a + of_int i * h)"]
  by (simp add: sample_points_def o_def)

lemma py_index_points:
  assumes "0 \<le> i" "i \<le> n"
  shows "py_index (sample_points a h n) i = Inr (a + of_int i * h)"
  using assms py_index_map_range[of i n "\<lambda>i. a + of_int i * h"]
  by (simp add: sample_points_def)

subsection \<open>Closed forms of the quadrature rules\<close>

lemma lr_closed:
  assumes "0 < n"
  shows "lr m a b n =
    Inr (sum_list (map (\<lambda>i. m (a + of_int i * ((b - a) / of_int n)) * ((b - a) / of_int n)) [0..n - 1]))"
proof -
  let ?h = "(b - a) / of_int n"
  have "for_loop (range_py 0 n)
          (\<lambda>i total. (case py_index (map m (sample_points a ?h n)) i of Inl err \<Rightarrow> Inl err
                        | Inr yi \<Rightarrow> Inr (total + yi * ?h))) 0
        = Inr (0 + sum_list (map (\<lambda>i. m (a + of_int i * ?h) * ?h) (range_py 0 n)))"
    by (rule for_loop_sum) (simp add: range_py_def py_index_samples)
  with assms show ?thesis
    by (simp add: lr_def py_div_def Let_def range_py_def)
qed

lemma for_loop_collect:
  assumes "\<And>i acc. i \<in> set idxs \<Longrightarrow> body i acc = Inr (acc @ [g i])"
  shows "for_loop idxs body acc0 = Inr (acc0 @ map g idxs)"
  using assms by (induction idxs arbitrary: acc0) simp_all

lemma py_index_map_upto:
  assumes "0 \<le> i" "i \<le> k"
  shows "py_index (map f [0..k]) i = Inr (f i)"
  using assms by (simp add: py_index_def Let_def)

lemma rr_closed:
  assumes "0 < n"
  shows "rr m a b n =
    Inr (sum_list (map (\<lambda>i. m (a + of_int i * ((b - a) / of_int n)) * ((b - a) / of_int n)) [1..n]))"
proof -
  let ?h = "(b - a) / of_int n"
  have "for_loop (range_py 1 (n + 1))
          (\<lambda>i total. (case py_index (map m (sample_points a ?h n)) i of Inl err \<Rightarrow> Inl err
                        | Inr yi \<Rightarrow> Inr (total + yi * ?h))) 0
        = Inr (0 + sum_list (map (\<lambda>i. m (a + of_int i * ?h) * ?h) (range_py 1 (n + 1))))"
    by (rule for_loop_sum) (simp add: range_py_def py_index_samples)
  with assms show ?thesis
    by (simp add: rr_def py_div_def Let_def range_py_def)
qed

lemma t_closed:
  assumes "0 < n"
  shows "t m a b n =
    Inr (sum_list (map (\<lambda>i. ((b - a) / of_int n) * (1 / 2) *
            (m (a + of_int i * ((b - a) / of_int n)) + m (a + of_int (i - 1) * ((b - a) / of_int n))))
          [1..n]))"
proof -
  let ?h = "(b - a) / of_int n"
  have "for_loop (range_py 1 (n + 1))
          (\<lambda>i total. (case py_index (map m (sample_points a ?h n)) i of Inl err \<Rightarrow> Inl err
             | Inr yi \<Rightarrow> (case py_index (map m (sample_points a ?h n)) (i - 1) of Inl err \<Rightarrow> Inl err
             | Inr yi1 \<Rightarrow> Inr (total + ?h * (1 / 2) * (yi + yi1))))) 0
        = Inr (0 + sum_list (map (\<lambda>i. ?h * (1 / 2) *
            (m (a + of_int i * ?h) + m (a + of_int (i - 1) * ?h))) (range_py 1 (n + 1))))"
    by (rule for_loop_sum) (simp add: range_py_def py_index_samples)
  with assms show ?thesis
    by (simp add: t_def py_div_def Let_def range_py_def)
qed

lemma midpoints_samples:
  assumes "0 \<le> n"
  shows "midpoints (sample_points a h n) =
    Inr (map (\<lambda>i. ((a + of_int i * h) + (a + of_int (i + 1) * h)) / 2) [0..n - 1])"
proof -
  have "for_loop (range_py 0 (int (length (sample_points a h n)) - 1))
       (\<lambda>i acc. (case py_index (sample_points a h n) i of Inl err \<Rightarrow> Inl err
          | Inr xi \<Rightarrow> (case py_index (sample_points a h n) (i + 1) of Inl err \<Rightarrow> Inl err
          | Inr xi1 \<Rightarrow> Inr (acc @ [(xi + xi1) / 2])))) []
     = Inr ([] @ map (\<lambda>i. ((a + of_int i * h) + (a + of_int (i + 1) * h)) / 2)
              (range_py 0 (int (length (sample_points a h n)) - 1)))"
    using assms
    by (intro for_loop_collect) (simp add: range_py_def py_index_points length_sample_points)
  with assms show ?thesis
    by (simp add: midpoints_def length_sample_points range_py_def)
qed

lemma mr_closed:
  assumes "0 < n"
  shows "mr m a b n =
    Inr (sum_list (map (\<lambda>i. m (((a + of_int i * ((b - a) / of_int n)) +
                               (a + of_int (i + 1) * ((b - a) / of_int n))) / 2) *
                           ((b - a) / of_int n)) [0..n - 1]))"
proof -
  let ?h = "(b - a) / of_int n"
  let ?mid = "\<lambda>i::int. ((a + of_int i * ?h) + (a + of_int (i + 1) * ?h)) / 2"
  have "for_loop (range_py 0 n)
          (\<lambda>i total. (case py_index (map m (map ?mid [0..n - 1])) i of Inl err \<Rightarrow> Inl err
                        | Inr yi \<Rightarrow> Inr (total + yi * ?h))) 0
        = Inr (0 + sum_list (map (\<lambda>i. m (?mid i) * ?h) (range_py 0 n)))"
  proof (rule for_loop_sum)
    fix i :: int and acc :: real
    assume "i \<in> set (range_py 0 n)"
    then have "0 \<le> i" "i \<le> n - 1" by (auto simp: range_py_def)
    then have "py_index (map (\<lambda>i. m (?mid i)) [0..n - 1]) i = Inr (m (?mid i))"
      by (rule py_index_map_upto)
    then show "(case py_index (map m (map ?mid [0..n - 1])) i of Inl err \<Rightarrow> Inl err
                 | Inr yi \<Rightarrow> Inr (acc + yi * ?h)) = Inr (acc + m (?mid i) * ?h)"
      by (simp add: o_def)
  qed
  with assms show ?thesis
    using midpoints_samples[of n a ?h]
    by (simp add: mr_def py_div_def Let_def range_py_def del: of_int_add)
qed

lemma s_closed_even:
  assumes "0 < n" "even n"
  shows "s m a b n =
    Inr (Num (sum_list (map (\<lambda>i. (((b - a) / of_int n) / 3) *
            (m (a + of_int (2 * i - 2) * ((b - a) / of_int n))
             + 4 * m (a + of_int (2 * i - 1) * ((b - a) / of_int n))
             + m (a + of_int (2 * i) * ((b - a) / of_int n))))
          [1..n div 2])))"
proof -
  let ?h = "(b - a) / of_int n"
  let ?y = "map m (sample_points a ?h n)"
  have le: "2 * i \<le> n" if "i \<le> n div 2" for i
    using that assms by presburger
  have "for_loop (range_py 1 (n div 2 + 1))
          (\<lambda>i total. (case py_index ?y (2 * i - 2) of Inl err \<Rightarrow> Inl err
             | Inr y0 \<Rightarrow> (case py_index ?y (2 * i - 1) of Inl err \<Rightarrow> Inl err
             | Inr y1 \<Rightarrow> (case py_index ?y (2 * i) of Inl err \<Rightarrow> Inl err
             | Inr y2 \<Rightarrow> Inr (total + (?h / 3) * (y0 + 4 * y1 + y2)))))) 0
        = Inr (0 + sum_list (map (\<lambda>i. (?h / 3) *
            (m (a + of_int (2 * i - 2) * ?h) + 4 * m (a + of_int (2 * i - 1) * ?h)
             + m (a + of_int (2 * i) * ?h))) (range_py 1 (n div 2 + 1))))"
  proof (rule for_loop_sum)
    fix i :: int and acc :: real
    assume "i \<in> set (range_py 1 (n div 2 + 1))"
    then have i: "1 \<le> i" "2 * i \<le> n" using le by (auto simp: range_py_def)
    then have "py_index ?y (2 * i - 2) = Inr (m (a + of_int (2 * i - 2) * ?h))"
      "py_index ?y (2 * i - 1) = Inr (m (a + of_int (2 * i - 1) * ?h))"
      "py_index ?y (2 * i) = Inr (m (a + of_int (2 * i) * ?h))"
      by (simp_all only: py_index_samples[of _ n m a ?h])
    then show "(case py_index ?y (2 * i - 2) of Inl err \<Rightarrow> Inl err
             | Inr y0 \<Rightarrow> (case py_index ?y (2 * i - 1) of Inl err \<Rightarrow> Inl err
             | Inr y1 \<Rightarrow> (case py_index ?y (2 * i) of Inl err \<Rightarrow> Inl err
             | Inr y2 \<Rightarrow> Inr (acc + (?h / 3) * (y0 + 4 * y1 + y2)))))
       = Inr (acc + (?h / 3) *
            (m (a + of_int (2 * i - 2) * ?h) + 4 * m (a + of_int (2 * i - 1) * ?h)
             + m (a + of_int (2 * i) * ?h)))"
      by simp
  qed
  with assms show ?thesis
    by (simp add: s_def py_div_def Let_def range_py_def)
qed

subsection \<open>Sums over index ranges\<close>

lemma trapezoid_sum:
  fixes y :: "int \<Rightarrow> real"
  assumes "0 \<le> n"
  shows "(\<Sum>i\<leftarrow>[1..n]. h * (1 / 2) * (y i + y (i - 1)))
       = ((\<Sum>i\<leftarrow>[0..n - 1]. y i * h) + (\<Sum>i\<leftarrow>[1..n]. y i * h)) / 2"
  using assms
proof (induction n rule: int_ge_induct)
  case base
  show ?case by simp
next
  case (step k)
  have a: "[1..k + 1] = [1..k] @ [k + 1]" using step.hyps by (simp add: upto_rec2)
  have b: "[0..k + 1 - 1] = [0..k - 1] @ [k]" using step.hyps by (simp add: upto_rec2)
  show ?case unfolding a b using step.IH by (simp add: algebra_simps)
qed

lemma reverse_sum:
  fixes g :: "int \<Rightarrow> real"
  shows "(\<Sum>i\<leftarrow>[1..n]. g (n - i)) = (\<Sum>i\<leftarrow>[0..n - 1]. g i)"
proof -
  have "(\<Sum>i\<in>{1..n}. g (n - i)) = (\<Sum>i\<in>{0..n - 1}. g i)"
    by (rule sum.reindex_bij_witness[of _ "\<lambda>i. n - i" "\<lambda>i. n - i"]) auto
  then show ?thesis
    by (simp add: sum_set_upto_conv_sum_list_int[symmetric])
qed

lemmas quad_eval = py_div_def sample_points_def range_py_def py_index_def Let_def upto.simps

subsection \<open>Trapezoidal rule as the mean of the rectangle rules\<close>

text \<open>
  C5: for every integrand \<open>m\<close>, bounds \<open>a\<close>, \<open>b\<close> and subinterval count \<open>n > 0\<close>, the
  left rule, the right rule and the trapezoidal rule all return a number, and the
  trapezoidal estimate is the average of the other two:
  \<open>t(m,a,b,n) = (lr(m,a,b,n) + rr(m,a,b,n)) / 2\<close>.
\<close>

theorem t_average:
  assumes "0 < n"
  shows "\<exists>L R. lr m a b n = Inr L \<and> rr m a b n = Inr R \<and> t m a b n = Inr ((L + R) / 2)"
  using assms
    trapezoid_sum[of n "(b - a) / of_int n" "\<lambda>i. m (a + of_int i * ((b - a) / of_int n))"]
  by (simp add: lr_closed rr_closed t_closed)

theorem t_average_witness:
  "(0::int) < 2 \<and> lr (\<lambda>x. x) 0 1 2 = Inr (1 / 4) \<and> rr (\<lambda>x. x) 0 1 2 = Inr (3 / 4)
     \<and> t (\<lambda>x. x) 0 1 2 = Inr ((1 / 4 + 3 / 4) / 2)"
proof -
  have L: "lr (\<lambda>x. x) 0 1 2 = Inr (1 / 4)"
    by (simp add: lr_def quad_eval)
  have R: "rr (\<lambda>x. x) 0 1 2 = Inr (3 / 4)"
    by (simp add: rr_def quad_eval)
  from t_average[of 2 "\<lambda>x. x" 0 1]
  obtain L' R' where *: "lr (\<lambda>x. x) 0 1 2 = Inr L'" "rr (\<lambda>x. x) 0 1 2 = Inr R'"
      "t (\<lambda>x. x) 0 1 2 = Inr ((L' + R') / 2)"
    by auto
  from * L R have "L' = 1 / 4" "R' = 3 / 4" by simp_all
  with * L R show ?thesis by simp
qed

subsection \<open>Reversing the interval\<close>

text \<open>
  C10: for every integrand \<open>m\<close>, bounds \<open>a\<close>, \<open>b\<close> and subinterval count \<open>n > 0\<close>, the
  left rule on \<open>[a,b]\<close> is the negated right rule on the reversed interval:
  \<open>lr(m,a,b,n) = - rr(m,b,a,n)\<close>.
\<close>

theorem lr_rr_antisym:
  assumes "0 < n"
  shows "\<exists>L R. lr m a b n = Inr L \<and> rr m b a n = Inr R \<and> L = - R"
proof -
  let ?h = "(b - a) / of_int n"
  let ?g = "\<lambda>i::int. m (a + of_int i * ?h) * ?h"
  have pt: "b + of_int i * ((a - b) / of_int n) = a + of_int (n - i) * ?h" for i :: int
    using assms by (simp add: field_simps)
  have nh: "(a - b) / of_int n = - ?h"
    using minus_divide_left[of "b - a" "of_int n :: real"] by simp
  have tm: "m (b + of_int i * ((a - b) / of_int n)) * ((a - b) / of_int n) = - ?g (n - i)"
    for i :: int
    unfolding pt unfolding nh by simp
  have "(\<Sum>i\<leftarrow>[1..n]. m (b + of_int i * ((a - b) / of_int n)) * ((a - b) / of_int n))
      = (\<Sum>i\<leftarrow>[1..n]. - ?g (n - i))"
    by (simp only: tm)
  also have "\<dots> = - (\<Sum>i\<leftarrow>[1..n]. ?g (n - i))"
    by (simp only: uminus_sum_list_map o_def)
  also have "\<dots> = - (\<Sum>i\<leftarrow>[0..n - 1]. ?g i)"
    by (simp only: reverse_sum[of ?g n])
  finally have "(\<Sum>i\<leftarrow>[1..n]. m (b + of_int i * ((a - b) / of_int n)) * ((a - b) / of_int n))
      = - (\<Sum>i\<leftarrow>[0..n - 1]. ?g i)" .
  then show ?thesis using assms by (simp only: lr_closed rr_closed) simp
qed

theorem lr_rr_antisym_witness:
  "(0::int) < 2 \<and> lr (\<lambda>x. x * x) 0 1 2 = Inr (1 / 8) \<and> rr (\<lambda>x. x * x) 1 0 2 = Inr (- (1 / 8))"
proof -
  have L: "lr (\<lambda>x. x * x) 0 1 2 = Inr (1 / 8)"
    by (simp add: lr_def quad_eval)
  from lr_rr_antisym[of 2 "\<lambda>x. x * x" 0 1] L show ?thesis by auto
qed

subsection \<open>Simpson's rule and the parity of \<open>n\<close>\<close>

lemma s_odd:
  assumes "n \<noteq> 0" "odd n"
  shows "s m a b n = Inr (Msg s_error_message)"
  using assms by (simp add: s_def py_div_def Let_def odd_iff_mod_2_eq_one)

lemma const_sum_upto:
  fixes c :: real
  assumes "0 \<le> k"
  shows "(\<Sum>i\<leftarrow>[1..k]. c) = of_int k * c" "(\<Sum>i\<leftarrow>[0..k - 1]. c) = of_int k * c"
  using assms by (simp_all add: sum_list_triv)

text \<open>
  C2: for every integrand \<open>m\<close>, bounds \<open>a\<close>, \<open>b\<close> and subinterval count \<open>n > 0\<close>,
  Simpson's rule returns a message (an ordinary return value: no exception, no number)
  if and only if \<open>n\<close> is odd, and then it is the descriptive error string; for an even
  \<open>n\<close> it returns the number \<open>\<Sum>i=1..n/2. (h/3) * (y\<^sub>2\<^sub>i\<^sub>-\<^sub>2 + 4*y\<^sub>2\<^sub>i\<^sub>-\<^sub>1 + y\<^sub>2\<^sub>i)\<close> with
  \<open>h = (b-a)/n\<close> and \<open>y\<^sub>j = m(a + j*h)\<close>; with \<open>n = 3\<close> it returns the error string.
\<close>

theorem s_error_iff_odd:
  assumes "0 < n"
  shows "((\<exists>msg. s m a b n = Inr (Msg msg)) \<longleftrightarrow> odd n)
       \<and> (odd n \<longrightarrow> s m a b n = Inr (Msg s_error_message))
       \<and> (even n \<longrightarrow> s m a b n =
            Inr (Num (\<Sum>i\<leftarrow>[1..n div 2]. (((b - a) / of_int n) / 3) *
              (m (a + of_int (2 * i - 2) * ((b - a) / of_int n))
               + 4 * m (a + of_int (2 * i - 1) * ((b - a) / of_int n))
               + m (a + of_int (2 * i) * ((b - a) / of_int n))))))
       \<and> s m a b 3 = Inr (Msg s_error_message)"
proof (cases "even n")
  case True
  with assms show ?thesis
    by (simp add: s_closed_even s_odd)
next
  case False
  with assms show ?thesis
    by (simp add: s_odd)
qed

theorem s_error_iff_odd_witness:
  "(0::int) < 2 \<and> even (2::int) \<and> s (\<lambda>x. x * x) 0 1 2 = Inr (Num (1 / 3))
   \<and> (0::int) < 3 \<and> odd (3::int) \<and> s (\<lambda>x. x * x) 0 1 3 = Inr (Msg s_error_message)"
  using s_error_iff_odd[of 2 "\<lambda>x. x * x" 0 1] s_error_iff_odd[of 3 "\<lambda>x. x * x" 0 1]
  by (simp add: upto.simps)

subsection \<open>The constant integrand\<close>

text \<open>
  Simpson's rule with an odd \<open>n\<close> does not integrate the constant \<open>1\<close> to \<open>b - a\<close>:
  on \<open>[0,1]\<close> with \<open>n = 3\<close> the result is not the number \<open>1 - 0\<close> (this is the input
  at which C3 fails as stated).
\<close>

theorem s_constant_odd_counterexample:
  "s unit_integrand 0 1 3 \<noteq> Inr (Num (1 - 0))"
  by (simp add: s_def py_div_def Let_def)

text \<open>
  C3, amended: for all bounds \<open>a\<close>, \<open>b\<close> and every subinterval count \<open>n > 0\<close>, the left,
  right and midpoint rectangle rules and the trapezoidal rule integrate the constant
  function \<open>f(x) = 1\<close> over \<open>[a,b]\<close> to exactly \<open>b - a\<close>; Simpson's rule does so for every
  even \<open>n > 0\<close>, and for an odd \<open>n\<close> it returns its error string instead.
\<close>

theorem constant_integrand:
  assumes "0 < n"
  shows "lr unit_integrand a b n = Inr (b - a)
       \<and> rr unit_integrand a b n = Inr (b - a)
       \<and> mr unit_integrand a b n = Inr (b - a)
       \<and> t unit_integrand a b n = Inr (b - a)
       \<and> (even n \<longrightarrow> s unit_integrand a b n = Inr (Num (b - a)))
       \<and> (odd n \<longrightarrow> s unit_integrand a b n = Inr (Msg s_error_message))"
proof -
  let ?h = "(b - a) / of_int n"
  have nh: "of_int n * ?h = b - a" using assms by simp
  have L: "lr unit_integrand a b n = Inr (b - a)"
    using assms nh by (simp add: lr_closed unit_integrand_def const_sum_upto)
  have R: "rr unit_integrand a b n = Inr (b - a)"
    using assms nh by (simp add: rr_closed unit_integrand_def const_sum_upto)
  have M: "mr unit_integrand a b n = Inr (b - a)"
    using assms nh by (simp add: mr_closed unit_integrand_def const_sum_upto)
  have T: "t unit_integrand a b n = Inr (b - a)"
    using assms nh by (simp add: t_closed unit_integrand_def const_sum_upto)
  have S: "s unit_integrand a b n = Inr (Num (b - a))" if "even n"
  proof -
    from that obtain k where k: "n = 2 * k" by (auto elim: evenE)
    with assms have "0 \<le> k" by simp
    then have "(\<Sum>i\<leftarrow>[1..k]. (?h / 3) * (1 + 4 * 1 + 1))
        = of_int k * ((?h / 3) * (1 + 4 * 1 + 1))"
      by (rule const_sum_upto)
    also have "\<dots> = of_int n * ?h" using k by simp
    finally show ?thesis using assms that nh k
      by (simp add: s_closed_even unit_integrand_def)
  qed
  from L R M T S assms show ?thesis by (simp add: s_odd)
qed

theorem constant_integrand_witness:
  "(0::int) < 2 \<and> even (2::int) \<and> lr unit_integrand 1 4 2 = Inr 3
   \<and> s unit_integrand 1 4 2 = Inr (Num 3)
   \<and> (0::int) < 3 \<and> odd (3::int) \<and> s unit_integrand 1 4 3 = Inr (Msg s_error_message)"
  using constant_integrand[of 2 1 4] constant_integrand[of 3 1 4] by simp

subsection \<open>Forward Euler\<close>

lemma fold_euler:
  "fold (\<lambda>k y. y + h * m y) idxs x0 = euler_seq m h x0 (length idxs)"
  by (induction idxs rule: rev_induct) simp_all

text \<open>
  C6: for every derivative function \<open>m\<close>, bounds \<open>a\<close>, \<open>b\<close>, initial value \<open>x0\<close> and
  step count \<open>n > 0\<close>, \<open>e\<close> returns (as a single number, without raising) the \<open>n\<close>-th
  iterate of \<open>y\<^sub>0 = x0\<close>, \<open>y\<^sub>k\<^sub>+\<^sub>1 = y\<^sub>k + h * m(y\<^sub>k)\<close> with \<open>h = (b-a)/n\<close>.
\<close>

theorem e_iterate:
  assumes "0 < n"
  shows "e m a b x0 n = Inr (euler_seq m ((b - a) / of_int n) x0 (nat n))"
proof -
  let ?h = "(b - a) / of_int n"
  have len: "length (range_py 0 n) = nat n"
    using assms by (simp add: range_py_def)
  have "e m a b x0 n = Inr (fold (\<lambda>k y. y + ?h * m y) (range_py 0 n) x0)"
    using assms by (simp add: e_def py_div_def)
  then show ?thesis by (simp only: fold_euler len)
qed

theorem e_iterate_witness:
  "(0::int) < 2 \<and> e (\<lambda>y. y) 0 1 1 2 = Inr (9 / 4)"
  using e_iterate[of 2 "\<lambda>y. y" 0 1 1] by (simp add: numeral_2_eq_2)

subsection \<open>Fixed-point iteration\<close>

text \<open>
  In the bounded mode every iteration row carries the step index \<open>0\<close> (the loop never
  changes \<open>count\<close>) and, as third entry, \<open>|m(x\<^sub>k)|\<close>.
\<close>

lemma fp_for_body_simps:
  "sol (fp_for_body m k st) = m (sol st)"
  "count (fp_for_body m k st) = count st"
  "spec_tab (fp_for_body m k st) =
     spec_tab st @ [[CInt (count st), CNum (m (sol st)), CNum \<bar>m (m (sol st))\<bar>]]"
  by (simp_all add: fp_for_body_def Let_def)

lemma fp_for_fold:
  "sol (fold (fp_for_body m) idxs st) = (m ^^ length idxs) (sol st)
   \<and> count (fold (fp_for_body m) idxs st) = count st
   \<and> spec_tab (fold (fp_for_body m) idxs st) =
       spec_tab st @
       map (\<lambda>k. [CInt (count st), CNum ((m ^^ k) (sol st)), CNum \<bar>m ((m ^^ k) (sol st))\<bar>])
         [1..<Suc (length idxs)]"
  by (induction idxs rule: rev_induct) (simp_all add: fp_for_body_simps)

lemma fp_bounded_trace:
  assumes "0 < n"
  shows "fp m x0 n tol =
    Some (trace_header # [CInt 0, CNum x0, CNum \<bar>m x0 - x0\<bar>] #
          map (\<lambda>k. [CInt 0, CNum ((m ^^ k) x0), CNum \<bar>m ((m ^^ k) x0)\<bar>]) [1..<Suc (nat n)])"
  using assms by (simp add: fp_def fp_for_fold range_py_def)

lemmas fp_eval = fp_def fp_while.simps fp_while_body_def fp_for_body_def range_py_def
  Let_def upto.simps

text \<open>
  C1 (residual column equals \<open>|m(x\<^sub>k) - x\<^sub>k|\<close> in every row) does not hold of the rows
  appended in the loops, which store \<open>|m(x\<^sub>k)|\<close>. With \<open>m(x) = x/2 + 1\<close> and \<open>x0 = 0\<close>,
  both the unbounded run with \<open>lim = 1\<close> and the bounded run with \<open>n = 1\<close> append a row
  for \<open>x\<^sub>1 = 1\<close> whose third entry is \<open>3/2\<close>, while \<open>|m(1) - 1| = 1/2\<close>.
\<close>

theorem fp_residual_is_not_displacement:
  "fp shifted_half 0 0 1
       = Some [trace_header, [CInt 0, CNum 0, CNum 1], [CInt 1, CNum 1, CNum (3 / 2)]]
   \<and> fp shifted_half 0 1 (1 / 1000)
       = Some [trace_header, [CInt 0, CNum 0, CNum 1], [CInt 0, CNum 1, CNum (3 / 2)]]
   \<and> \<bar>shifted_half 1 - 1\<bar> = 1 / 2"
  by (simp add: fp_eval shifted_half_def)

text \<open>
  C8 (the \<open>k\<close>-th iteration row of the bounded mode carries step index \<open>k\<close>) does not
  hold: with \<open>m(x) = x/2 + 1\<close>, \<open>x0 = 0\<close> and \<open>n = 2\<close> the trace has the header, the
  step-0 record and two iteration rows, and both iteration rows carry index \<open>0\<close>.
\<close>

theorem fp_bounded_step_index_stays_zero:
  "fp shifted_half 0 2 (1 / 1000)
     = Some [trace_header, [CInt 0, CNum 0, CNum 1], [CInt 0, CNum 1, CNum (3 / 2)],
             [CInt 0, CNum (3 / 2), CNum (7 / 4)]]"
  by (simp add: fp_eval shifted_half_def)

text \<open>
  C9 (the last row's residual is below \<open>0.0001\<close>) does not hold: the run with
  \<open>m(x) = (x + 2/x)/2\<close>, \<open>x0 = 1\<close>, \<open>n\<close> unset and \<open>lim = 0.0001\<close> ends after three
  iterations at \<open>577/408\<close>, where the displacement \<open>|m(x) - x|\<close> is below \<open>0.0001\<close>,
  but the residual stored in the last row is \<open>|m(577/408)| = 665857/470832\<close>.
\<close>

theorem fp_babylonian_last_residual:
  "fp babylonian 1 0 (1 / 10000)
     = Some [trace_header, [CInt 0, CNum 1, CNum (1 / 2)], [CInt 1, CNum (3 / 2), CNum (17 / 12)],
             [CInt 2, CNum (17 / 12), CNum (577 / 408)],
             [CInt 3, CNum (577 / 408), CNum (665857 / 470832)]]
   \<and> \<not> (665857 / 470832 < (1 / 10000 :: real))
   \<and> \<bar>babylonian (577 / 408) - 577 / 408\<bar> < 1 / 10000"
  by (simp add: fp_eval babylonian_def)

subsection \<open>Newton-Raphson iteration\<close>

lemma nr_for_body_zero:
  "dm (sol st) = 0 \<Longrightarrow> nr_for_body m dm k st = Inl ZeroDivisionError"
  by (simp add: nr_for_body_def py_div_def)

lemma nr_while_body_zero:
  "dm (sol st) = 0 \<Longrightarrow> nr_while_body m dm st = Inl ZeroDivisionError"
  by (simp add: nr_while_body_def py_div_def)

lemma nr_for_body_ok:
  assumes "dm (sol st) \<noteq> 0"
  shows "\<exists>st'. nr_for_body m dm k st = Inr st'
          \<and> sol st' = sol st - m (sol st) / dm (sol st)
          \<and> count st' = count st
          \<and> spec_tab st' = spec_tab st @ [[CInt k, CNum (sol st'), CNum \<bar>m (sol st')\<bar>]]"
  using assms by (simp add: nr_for_body_def py_div_def Let_def)

lemma nr_while_body_ok:
  assumes "dm (sol st) \<noteq> 0"
  shows "\<exists>st'. nr_while_body m dm st = Inr st'
          \<and> sol st' = sol st - m (sol st) / dm (sol st)
          \<and> count st' = count st + 1
          \<and> spec_tab st' = spec_tab st @ [[CInt (count st'), CNum (sol st'), CNum \<bar>m (sol st')\<bar>]]"
  using assms by (simp add: nr_while_body_def py_div_def Let_def)

lemma nr_for_prefix:
  assumes "\<And>k. k < j \<Longrightarrow> dm (newton_seq m dm x0 k) \<noteq> 0"
  shows "\<exists>st. for_loop [1..int j] (nr_for_body m dm) (nr_init m x0) = Inr st
          \<and> sol st = newton_seq m dm x0 j
          \<and> spec_tab st = trace_header # map (newton_row m dm x0) [0..<Suc j]"
  using assms
proof (induction j)
  case 0
  show ?case by (simp add: nr_init_def newton_row_def)
next
  case (Suc j)
  then obtain st where st: "for_loop [1..int j] (nr_for_body m dm) (nr_init m x0) = Inr st"
      "sol st = newton_seq m dm x0 j"
      "spec_tab st = trace_header # map (newton_row m dm x0) [0..<Suc j]"
    by force
  from Suc.prems[of j] st have "dm (sol st) \<noteq> 0" by simp
  from nr_for_body_ok[where dm = dm and st = st and m = m and k = "int j + 1", OF this] obtain st' where
    st': "nr_for_body m dm (int j + 1) st = Inr st'"
      "sol st' = sol st - m (sol st) / dm (sol st)"
      "spec_tab st' = spec_tab st @ [[CInt (int j + 1), CNum (sol st'), CNum \<bar>m (sol st')\<bar>]]"
    by blast
  have split: "[1..int (Suc j)] = [1..int j] @ [int j + 1]"
    by (simp add: upto_rec2)
  have "for_loop [1..int (Suc j)] (nr_for_body m dm) (nr_init m x0) = Inr st'"
    unfolding split by (simp add: for_loop_append st st')
  moreover have "sol st' = newton_seq m dm x0 (Suc j)"
    using st st' by simp
  moreover have "spec_tab st' = trace_header # map (newton_row m dm x0) [0..<Suc (Suc j)]"
    using st st' by (simp add: newton_row_def)
  ultimately show ?case by blast
qed

lemma nr_bounded_ok:
  assumes "0 < n" "\<And>k. k < nat n \<Longrightarrow> dm (newton_seq m dm x0 k) \<noteq> 0"
  shows "nr m dm x0 n tol = Some (Inr (trace_header # map (newton_row m dm x0) [0..<Suc (nat n)]))"
proof -
  from nr_for_prefix[of "nat n" dm m x0] assms
  obtain st where "for_loop [1..n] (nr_for_body m dm) (nr_init m x0) = Inr st"
      "spec_tab st = trace_header # map (newton_row m dm x0) [0..<Suc (nat n)]"
    by auto
  with assms(1) show ?thesis
    by (simp add: nr_def range_py_def nr_init_def)
qed

lemma first_zero:
  fixes f :: "nat \<Rightarrow> real"
  assumes "f k = 0"
  obtains k0 where "k0 \<le> k" "f k0 = 0" "\<And>j. j < k0 \<Longrightarrow> f j \<noteq> 0"
proof -
  let ?k0 = "LEAST j. f j = 0"
  have "f ?k0 = 0" using assms by (rule LeastI)
  moreover have "?k0 \<le> k" using assms by (rule Least_le)
  moreover have "f j \<noteq> 0" if "j < ?k0" for j using that not_less_Least by blast
  ultimately show ?thesis using that by blast
qed

lemma nr_bounded_zero:
  assumes "0 < n" "k < nat n" "dm (newton_seq m dm x0 k) = 0"
  shows "nr m dm x0 n tol = Some (Inl ZeroDivisionError)"
proof -
  from first_zero[of "\<lambda>j. dm (newton_seq m dm x0 j)" k, OF assms(3)]
  obtain k0 where k0: "k0 \<le> k" "dm (newton_seq m dm x0 k0) = 0"
      "\<And>j. j < k0 \<Longrightarrow> dm (newton_seq m dm x0 j) \<noteq> 0"
    by blast
  from nr_for_prefix[of k0 dm m x0] k0(3)
  obtain st where st: "for_loop [1..int k0] (nr_for_body m dm) (nr_init m x0) = Inr st"
      "sol st = newton_seq m dm x0 k0"
    by auto
  have "\<exists>rest. [1..n] = [1..int k0] @ (int k0 + 1) # rest"
    using upto_split3[of 1 "int k0 + 1" n] k0(1) assms(2) by simp
  then obtain rest where split: "[1..n] = [1..int k0] @ (int k0 + 1) # rest" ..
  have "for_loop [1..n] (nr_for_body m dm) (nr_init m x0) = Inl ZeroDivisionError"
    unfolding split using st k0(2) by (simp add: for_loop_append nr_for_body_zero)
  with assms(1) show ?thesis
    by (simp add: nr_def range_py_def nr_init_def)
qed

lemma nr_while_prefix:
  assumes "\<And>j. j < k \<Longrightarrow> \<bar>m (newton_seq m dm x0 j)\<bar> \<ge> tol \<and> dm (newton_seq m dm x0 j) \<noteq> 0"
  shows "\<exists>st. nr_while m dm tol (nr_init m x0) = nr_while m dm tol st
          \<and> sol st = newton_seq m dm x0 k \<and> count st = int k
          \<and> spec_tab st = trace_header # map (newton_row m dm x0) [0..<Suc k]"
  using assms
proof (induction k)
  case 0
  show ?case
    by (rule exI[of _ "nr_init m x0"]) (simp add: nr_init_def newton_row_def)
next
  case (Suc k)
  then obtain st where st: "nr_while m dm tol (nr_init m x0) = nr_while m dm tol st"
      "sol st = newton_seq m dm x0 k" "count st = int k"
      "spec_tab st = trace_header # map (newton_row m dm x0) [0..<Suc k]"
    by force
  from Suc.prems[of k] st have go: "\<bar>m (sol st)\<bar> \<ge> tol" "dm (sol st) \<noteq> 0" by simp_all
  from nr_while_body_ok[where dm = dm and st = st and m = m, OF go(2)] obtain st' where
    st': "nr_while_body m dm st = Inr st'"
      "sol st' = sol st - m (sol st) / dm (sol st)"
      "count st' = count st + 1"
      "spec_tab st' = spec_tab st @ [[CInt (count st'), CNum (sol st'), CNum \<bar>m (sol st')\<bar>]]"
    by blast
  have "nr_while m dm tol st = nr_while m dm tol st'"
    using go(1) st'(1) by (subst nr_while.simps) simp
  with st have "nr_while m dm tol (nr_init m x0) = nr_while m dm tol st'" by simp
  moreover have "sol st' = newton_seq m dm x0 (Suc k)" using st st' by simp
  moreover have "count st' = int (Suc k)" using st st' by simp
  moreover have "spec_tab st' = trace_header # map (newton_row m dm x0) [0..<Suc (Suc k)]"
    using st st' by (simp add: newton_row_def)
  ultimately show ?case by blast
qed

lemma nr_unbounded_ok:
  assumes "\<And>j. j < k \<Longrightarrow> \<bar>m (newton_seq m dm x0 j)\<bar> \<ge> tol \<and> dm (newton_seq m dm x0 j) \<noteq> 0"
    and "\<bar>m (newton_seq m dm x0 k)\<bar> < tol"
  shows "nr m dm x0 0 tol = Some (Inr (trace_header # map (newton_row m dm x0) [0..<Suc k]))"
proof -
  from nr_while_prefix[of k tol m dm x0] assms(1)
  obtain st where st: "nr_while m dm tol (nr_init m x0) = nr_while m dm tol st"
      "sol st = newton_seq m dm x0 k"
      "spec_tab st = trace_header # map (newton_row m dm x0) [0..<Suc k]"
    by auto
  have "nr_while m dm tol st = Some (Inr st)"
    using assms(2) st(2) by (subst nr_while.simps) simp
  with st show ?thesis
    by (simp add: nr_def nr_init_def)
qed

lemma nr_unbounded_zero:
  assumes "dm (newton_seq m dm x0 k) = 0"
    and "\<And>j. j \<le> k \<Longrightarrow> \<bar>m (newton_seq m dm x0 j)\<bar> \<ge> tol"
  shows "nr m dm x0 0 tol = Some (Inl ZeroDivisionError)"
proof -
  from first_zero[of "\<lambda>j. dm (newton_seq m dm x0 j)" k, OF assms(1)]
  obtain k0 where k0: "k0 \<le> k" "dm (newton_seq m dm x0 k0) = 0"
      "\<And>j. j < k0 \<Longrightarrow> dm (newton_seq m dm x0 j) \<noteq> 0"
    by blast
  have "\<And>j. j < k0 \<Longrightarrow> \<bar>m (newton_seq m dm x0 j)\<bar> \<ge> tol \<and> dm (newton_seq m dm x0 j) \<noteq> 0"
    using k0 assms(2) by simp
  from nr_while_prefix[of k0 tol m dm x0, OF this]
  obtain st where st: "nr_while m dm tol (nr_init m x0) = nr_while m dm tol st"
      "sol st = newton_seq m dm x0 k0"
    by auto
  have "\<bar>m (sol st)\<bar> \<ge> tol" using st(2) assms(2)[of k0] k0(1) by simp
  then have "nr_while m dm tol st = Some (Inl ZeroDivisionError)"
    using st(2) k0(2) by (subst nr_while.simps) (simp add: nr_while_body_zero)
  with st show ?thesis
    by (simp add: nr_def nr_init_def)
qed

text \<open>
  C4: \<open>nr\<close> applies the update \<open>x\<^sub>k\<^sub>+\<^sub>1 = x\<^sub>k - m(x\<^sub>k)/dm(x\<^sub>k)\<close>: when no derivative
  vanishes on the way, the bounded mode (\<open>n > 0\<close>) returns the header and the rows of
  \<open>x\<^sub>0, ..., x\<^sub>n\<close>, and the unbounded mode returns the header and the rows up to the
  first iterate with \<open>|m(x\<^sub>k)| < lim\<close>. When \<open>dm(x\<^sub>k) = 0\<close> at an iterate that is reached
  before the loop stops (\<open>k < n\<close> in the bounded mode; \<open>|m(x\<^sub>j)| \<ge> lim\<close> for all
  \<open>j \<le> k\<close> in the unbounded mode), the call ends with the division-by-zero error.
\<close>

theorem nr_update_and_zero_derivative:
  "(0 < n \<and> (\<forall>k<nat n. dm (newton_seq m dm x0 k) \<noteq> 0) \<longrightarrow>
      nr m dm x0 n tol = Some (Inr (trace_header # map (newton_row m dm x0) [0..<Suc (nat n)])))
   \<and> (0 < n \<and> k < nat n \<and> dm (newton_seq m dm x0 k) = 0 \<longrightarrow>
      nr m dm x0 n tol = Some (Inl ZeroDivisionError))
   \<and> ((\<forall>j<k. \<bar>m (newton_seq m dm x0 j)\<bar> \<ge> tol \<and> dm (newton_seq m dm x0 j) \<noteq> 0)
        \<and> \<bar>m (newton_seq m dm x0 k)\<bar> < tol \<longrightarrow>
      nr m dm x0 0 tol = Some (Inr (trace_header # map (newton_row m dm x0) [0..<Suc k])))
   \<and> (dm (newton_seq m dm x0 k) = 0 \<and> (\<forall>j\<le>k. \<bar>m (newton_seq m dm x0 j)\<bar> \<ge> tol) \<longrightarrow>
      nr m dm x0 0 tol = Some (Inl ZeroDivisionError))"
  using nr_bounded_ok[of n dm m x0 tol] nr_bounded_zero[of n k dm m x0 tol]
    nr_unbounded_ok[of k tol m dm x0] nr_unbounded_zero[of dm m x0 k tol]
  by blast

theorem nr_update_and_zero_derivative_witness:
  "nr sq2_f sq2_df 1 1 (1 / 1000)
     = Some (Inr [trace_header, [CInt 0, CNum 1, CNum 1], [CInt 1, CNum (3 / 2), CNum (1 / 4)]])
   \<and> nr sq2_f sq2_df 0 1 (1 / 1000) = Some (Inl ZeroDivisionError)
   \<and> nr sq2_f sq2_df 1 0 (1 / 2)
     = Some (Inr [trace_header, [CInt 0, CNum 1, CNum 1], [CInt 1, CNum (3 / 2), CNum (1 / 4)]])
   \<and> nr sq2_f sq2_df 0 0 1 = Some (Inl ZeroDivisionError)"
  using nr_update_and_zero_derivative[of 1 sq2_df sq2_f 1 "1 / 1000" 0]
    nr_update_and_zero_derivative[of 1 sq2_df sq2_f 0 "1 / 1000" 0]
    nr_update_and_zero_derivative[of 1 sq2_df sq2_f 1 "1 / 2" 1]
    nr_update_and_zero_derivative[of 1 sq2_df sq2_f 0 1 0]
  by (simp add: newton_row_def sq2_f_def sq2_df_def power2_eq_square)

lemmas nr_eval = nr_def nr_for_body_def nr_while_body_def nr_while.simps py_div_def range_py_def
  Let_def upto.simps

text \<open>
  The trace of \<open>nr\<close> with \<open>m(x) = x\<^sup>2 - 2\<close>, \<open>dm(x) = 2x\<close>, \<open>x0 = 1\<close>, \<open>n = 5\<close> does not
  have 6 rows (this is where C7 fails as stated).
\<close>

theorem nr_sqrt2_six_rows_counterexample:
  "map_option (map_sum id length) (nr sq2_f sq2_df 1 5 (1 / 1000)) \<noteq> Some (Inr 6)"
  by (simp add: nr_eval sq2_f_def sq2_df_def power2_eq_square)

lemma sqrt2_near:
  "\<bar>886731088897 / 627013566048 - sqrt 2\<bar> < 1 / 10000"
proof -
  let ?x = "886731088897 / 627013566048 :: real"
  have "(?x - 1 / 10000)\<^sup>2 < 2" by (simp add: power2_eq_square)
  then have lo: "?x - 1 / 10000 < sqrt 2" by (rule real_less_rsqrt)
  have "2 < (?x + 1 / 10000)\<^sup>2" by (simp add: power2_eq_square)
  then have hi: "sqrt 2 < ?x + 1 / 10000" by (intro real_less_lsqrt) simp_all
  from lo hi show ?thesis by linarith
qed

text \<open>
  C7, amended: the call of \<open>nr\<close> with \<open>m(x) = x\<^sup>2 - 2\<close>, \<open>dm(x) = 2x\<close>, \<open>x0 = 1\<close>, \<open>n = 5\<close>
  returns a trace with exactly 7 rows (the header, the step-0 record and 5 iteration
  rows), and the approximation in the final row is within \<open>10\<^sup>-\<^sup>4\<close> of \<open>sqrt 2\<close>.
\<close>

theorem nr_sqrt2_trace:
  "nr sq2_f sq2_df 1 5 (1 / 1000)
     = Some (Inr [trace_header, [CInt 0, CNum 1, CNum 1], [CInt 1, CNum (3 / 2), CNum (1 / 4)],
         [CInt 2, CNum (17 / 12), CNum (1 / 144)],
         [CInt 3, CNum (577 / 408), CNum (1 / 166464)],
         [CInt 4, CNum (665857 / 470832), CNum (1 / 221682772224)],
         [CInt 5, CNum (886731088897 / 627013566048), CNum (1 / 393146012008229658338304)]])
   \<and> map_option (map_sum id length) (nr sq2_f sq2_df 1 5 (1 / 1000)) = Some (Inr 7)
   \<and> \<bar>886731088897 / 627013566048 - sqrt 2\<bar> < 1 / 10000"
proof -
  have "nr sq2_f sq2_df 1 5 (1 / 1000)
     = Some (Inr [trace_header, [CInt 0, CNum 1, CNum 1], [CInt 1, CNum (3 / 2), CNum (1 / 4)],
         [CInt 2, CNum (17 / 12), CNum (1 / 144)],
         [CInt 3, CNum (577 / 408), CNum (1 / 166464)],
         [CInt 4, CNum (665857 / 470832), CNum (1 / 221682772224)],
         [CInt 5, CNum (886731088897 / 627013566048), CNum (1 / 393146012008229658338304)]])"
    by (simp add: nr_eval sq2_f_def sq2_df_def power2_eq_square)
  then show ?thesis using sqrt2_near by simp
qed

end
